theory Spec2Isabelle
  imports Complex_Main
begin

section \<open>The strategy test harness (verify_strategies.py)\<close>

subsection \<open>Python values, exceptions and string tests\<close>

text \<open>
  A strategy returns some Python object. The harness only asks whether it is a \<open>str\<close>
  and, if it is not, formats its type: \<open>NonStr t\<close> is any object that is not a \<open>str\<close>,
  with \<open>t\<close> the text that \<open>type(result)\<close> formats as, such as \<open><class 'NoneType'>\<close>.
\<close>

datatype pyobj = Str string | NonStr string

text \<open>
  The part of Python's exception hierarchy the harness distinguishes. \<open>ValueError\<close> and
  \<open>OtherException\<close> are instances of \<open>Exception\<close>; \<open>KeyboardInterrupt\<close> and \<open>SystemExit\<close>
  derive from \<open>BaseException\<close> only, so an \<open>except Exception\<close> clause lets them pass.
\<close>

datatype exc = ValueError string | OtherException string | KeyboardInterrupt | SystemExit int

fun is_Exception :: "exc \<Rightarrow> bool" where
  "is_Exception (ValueError m) = True"
| "is_Exception (OtherException m) = True"
| "is_Exception KeyboardInterrupt = False"
| "is_Exception (SystemExit n) = False"

fun str_exc :: "exc \<Rightarrow> string" where
  "str_exc (ValueError m) = m"
| "str_exc (OtherException m) = m"
| "str_exc KeyboardInterrupt = []"
| "str_exc (SystemExit n) = []"

text \<open>\<open>s.startswith(p)\<close> and \<open>sub in s\<close> on strings.\<close>

fun startswith :: "string \<Rightarrow> string \<Rightarrow> bool" where
  "startswith s [] = True"
| "startswith [] (p # ps) = False"
| "startswith (c # cs) (p # ps) = (c = p \<and> startswith cs ps)"

fun contains :: "string \<Rightarrow> string \<Rightarrow> bool" where
  "contains [] sub = startswith [] sub"
| "contains (c # cs) sub = (startswith (c # cs) sub \<or> contains cs sub)"

text \<open>Truth value of what \<open>os.getenv\<close> returns: \<open>None\<close> and the empty string are false.\<close>

fun truthy :: "string option \<Rightarrow> bool" where
  "truthy None = False"
| "truthy (Some v) = (v \<noteq> [])"

subsection \<open>The collaborators: environment, database, strategy module\<close>

datatype strategy =
    search_knowledge_base
  | search_with_multi_query
  | search_with_reranking
  | search_with_self_reflection
  | search_with_hybrid_retrieval
  | retrieve_full_document
  | answer_with_fact_verification
  | answer_with_multi_hop
  | answer_with_uncertainty

text \<open>
  What the harness does to the outside, in order: the calls into \<open>rag_agent_advanced\<close>
  and the printing of the report.
\<close>

datatype event = Initialize_db | Close_db | Invoke strategy string | Print_report nat nat nat

datatype outcome = Returns pyobj | Raises exc

text \<open>
  One awaited strategy call: how it ended, and the seconds that passed between the two
  readings of \<open>time.time()\<close> around it.
\<close>

record response =
  outcome :: outcome
  elapsed :: real

text \<open>
  Everything the harness does not control. A strategy is stateful code of another
  module, so its answer may depend on all that was done before (the event history) as
  well as on its arguments. \<open>import_error\<close> is the \<open>ImportError\<close> of the module's import,
  if it fails.
\<close>

record world =
  import_error :: "string option"
  getenv :: "string \<Rightarrow> string option"
  initialize_db :: "exc option"
  close_db :: "exc option"
  respond :: "event list \<Rightarrow> strategy \<Rightarrow> string \<Rightarrow> response"

subsection \<open>TestResult and StrategyTester\<close>

record TestResult =
  name :: string
  status :: string
  duration_ms :: real
  "output" :: string
  error :: string

text \<open>
  The two fields of \<open>StrategyTester\<close>, and the history of what it did to the outside.
  A method that raises leaves the object as it was at that moment, so every method
  returns the pending exception (if any) together with the object.
\<close>

record tester =
  results :: "TestResult list"
  db_initialized :: bool
  trace :: "event list"

definition new_tester :: tester where
  "new_tester = \<lparr>results = [], db_initialized = False, trace = []\<rparr>"

definition setup_tester :: "world \<Rightarrow> tester \<Rightarrow> exc option \<times> tester" where
  "setup_tester w s =
     (if \<not> truthy (getenv w ''DATABASE_URL'') then
        (Some (ValueError ''DATABASE_URL is missing in .env''), s)
      else if \<not> truthy (getenv w ''OPENAI_API_KEY'') then
        (Some (ValueError ''OPENAI_API_KEY is missing in .env''), s)
      else
        (let s1 = s\<lparr>trace := trace s @ [Initialize_db]\<rparr> in
         case initialize_db w of
           None \<Rightarrow> (None, s1\<lparr>db_initialized := True\<rparr>)
         | Some e \<Rightarrow> (Some e, s1)))"

definition teardown :: "world \<Rightarrow> tester \<Rightarrow> exc option \<times> tester" where
  "teardown w s =
     (if db_initialized s then (close_db w, s\<lparr>trace := trace s @ [Close_db]\<rparr>)
      else (None, s))"

text \<open>
  The success criteria of \<open>run_test\<close>: the status, and the text that \<open>result\<close> holds
  when the \<open>TestResult\<close> is built (the returned string, or the message about the type).
\<close>

definition classify :: "pyobj \<Rightarrow> string \<times> string" where
  "classify result =
     (case result of
        Str s \<Rightarrow>
          (if startswith s ''Error'' \<or> startswith s ''Search error''
              \<or> contains s ''encountered an error''
           then (''FAIL'', s) else (''PASS'', s))
      | NonStr t \<Rightarrow> (''FAIL'', ''Unexpected return type: '' @ t))"

text \<open>
  \<open>run_test\<close>: \<open>h\<close> is the history at the moment of the call. The result is the
  \<open>TestResult\<close>, or the exception that the \<open>except Exception\<close> clause does not catch.
\<close>

definition run_test :: "world \<Rightarrow> event list \<Rightarrow> string \<Rightarrow> strategy \<Rightarrow> string \<Rightarrow> exc + TestResult" where
  "run_test w h nm func arg =
     (let r = respond w h func arg; duration = elapsed r * 1000 in
      case outcome r of
        Returns result \<Rightarrow>
          (let (st, msg) = classify result in
           Inr \<lparr>name = nm, status = st, duration_ms = duration,
                output = take 200 msg @ ''...'', error = []\<rparr>)
      | Raises e \<Rightarrow>
          (if is_Exception e then
             Inr \<lparr>name = nm, status = ''FAIL'', duration_ms = duration,
                  output = [], error = str_exc e\<rparr>
           else Inl e))"

text \<open>
  The ten \<open>self.results.append(await self.run_test(...))\<close> statements of \<open>run_all\<close>, as
  the list of their arguments.
\<close>

definition registered_tests :: "string \<Rightarrow> (string \<times> strategy \<times> string) list" where
  "registered_tests test_query =
     [(''Baseline: search_knowledge_base'', search_knowledge_base, test_query),
      (''Strategy: search_with_multi_query'', search_with_multi_query, test_query),
      (''Strategy: search_with_reranking'', search_with_reranking, test_query),
      (''Strategy: search_with_self_reflection'', search_with_self_reflection, test_query),
      (''Strategy: search_with_hybrid_retrieval'', search_with_hybrid_retrieval, test_query),
      (''Edge Case: retrieve_full_document (missing)'', retrieve_full_document,
         ''NON_EXISTENT_DOCUMENT_X123''),
      (''Strategy: answer_with_fact_verification'', answer_with_fact_verification, test_query),
      (''Strategy: answer_with_multi_hop'', answer_with_multi_hop, test_query),
      (''Strategy: answer_with_uncertainty'', answer_with_uncertainty, test_query),
      (''Input Validation: Empty Query'', search_knowledge_base, [])]"

text \<open>
  The statements run one after the other; one that raises ends the sequence, as an
  uncaught exception leaves \<open>run_all\<close>.
\<close>

fun run_tests :: "world \<Rightarrow> (string \<times> strategy \<times> string) list \<Rightarrow> tester \<Rightarrow> exc option \<times> tester" where
  "run_tests w [] s = (None, s)"
| "run_tests w ((nm, func, arg) # ts) s =
     (let s1 = s\<lparr>trace := trace s @ [Invoke func arg]\<rparr> in
      case run_test w (trace s) nm func arg of
        Inl e \<Rightarrow> (Some e, s1)
      | Inr r \<Rightarrow> run_tests w ts (s1\<lparr>results := results s1 @ [r]\<rparr>))"

text \<open>The loop of \<open>print_report\<close> over the results, counting passed and failed.\<close>

fun tally :: "TestResult list \<Rightarrow> nat \<times> nat \<Rightarrow> nat \<times> nat" where
  "tally [] (passed, failed) = (passed, failed)"
| "tally (r # rs) (passed, failed) =
     (if status r = ''PASS'' then tally rs (passed + 1, failed)
      else tally rs (passed, failed + 1))"

definition print_report :: "tester \<Rightarrow> exc option \<times> tester" where
  "print_report s =
     (let (passed, failed) = tally (results s) (0, 0);
          s1 = s\<lparr>trace := trace s @ [Print_report (length (results s)) passed failed]\<rparr>
      in if failed > 0 then (Some (SystemExit 1), s1) else (None, s1))"

definition run_all :: "world \<Rightarrow> string \<Rightarrow> tester \<Rightarrow> exc option \<times> tester" where
  "run_all w test_query s =
     (case setup_tester w s of
        (Some e, s1) \<Rightarrow> (Some e, s1)
      | (None, s1) \<Rightarrow>
          (case run_tests w (registered_tests test_query) s1 of
             (Some e, s2) \<Rightarrow> (Some e, s2)
           | (None, s2) \<Rightarrow>
               (case teardown w s2 of
                  (Some e, s3) \<Rightarrow> (Some e, s3)
                | (None, s3) \<Rightarrow> print_report s3)))"

text \<open>
  The \<open>__main__\<close> block, with the \<open>--query\<close> argument if given. The value is the exit
  status of the process: an uncaught \<open>SystemExit n\<close> ends it with status \<open>n\<close>; after
  either \<open>except\<close> clause the script runs to its end, which is status 0.
\<close>

definition main :: "world \<Rightarrow> string option \<Rightarrow> int" where
  "main w query_arg =
     (let query = (case query_arg of None \<Rightarrow> ''What are the strategic goals?'' | Some q \<Rightarrow> q) in
      case fst (run_all w query new_tester) of
        None \<Rightarrow> 0
      | Some KeyboardInterrupt \<Rightarrow> 0
      | Some (SystemExit n) \<Rightarrow> n
      | Some (ValueError m) \<Rightarrow> 0
      | Some (OtherException m) \<Rightarrow> 0)"

text \<open>
  The whole script: the import of \<open>rag_agent_advanced\<close> at the top, which ends the
  process with \<open>sys.exit(1)\<close> when it fails, then the \<open>__main__\<close> block.
\<close>

definition script :: "world \<Rightarrow> string option \<Rightarrow> int" where
  "script w query_arg = (case import_error w of Some m \<Rightarrow> 1 | None \<Rightarrow> main w query_arg)"

subsection \<open>What the outside did: the outcomes of the calls of a run\<close>

text \<open>
  An outcome that \<open>run_test\<close> turns into a \<open>TestResult\<close>: the call returned, or raised an
  instance of \<open>Exception\<close>.
\<close>

fun caught :: "outcome \<Rightarrow> bool" where
  "caught (Returns v) = True"
| "caught (Raises e) = is_Exception e"

text \<open>
  The outcomes of the calls of a list of tests when they all run, the first at history
  \<open>h\<close>: every call adds its \<open>Invoke\<close> event to the history and nothing else.
\<close>

fun call_outcomes :: "world \<Rightarrow> event list \<Rightarrow> (string \<times> strategy \<times> string) list \<Rightarrow> outcome list" where
  "call_outcomes w h [] = []"
| "call_outcomes w h ((nm, func, arg) # ts) =
     outcome (respond w h func arg) # call_outcomes w (h @ [Invoke func arg]) ts"

subsection \<open>Example worlds\<close>

text \<open>
  A world with both credentials set and a database that connects, where the strategies
  pass, return error-shaped text, return \<open>None\<close> and raise.
\<close>

fun demo_response :: "strategy \<Rightarrow> response" where
  "demo_response search_knowledge_base = \<lparr>outcome = Returns (Str ''Found 3 relevant chunks''), elapsed = 1/4\<rparr>"
| "demo_response search_with_multi_query = \<lparr>outcome = Returns (Str ''Error: no embeddings''), elapsed = 1/2\<rparr>"
| "demo_response search_with_reranking = \<lparr>outcome = Raises (OtherException ''connection reset''), elapsed = 1/8\<rparr>"
| "demo_response search_with_self_reflection = \<lparr>outcome = Returns (NonStr ''<class 'NoneType'>''), elapsed = 1\<rparr>"
| "demo_response search_with_hybrid_retrieval = \<lparr>outcome = Returns (Str ''Search error: timeout''), elapsed = 2\<rparr>"
| "demo_response retrieve_full_document = \<lparr>outcome = Returns (Str ''Document not found''), elapsed = 1/4\<rparr>"
| "demo_response answer_with_fact_verification = \<lparr>outcome = Returns (Str ''The agent encountered an error while verifying''), elapsed = 3\<rparr>"
| "demo_response answer_with_multi_hop = \<lparr>outcome = Returns (Str ''Answer''), elapsed = 1\<rparr>"
| "demo_response answer_with_uncertainty = \<lparr>outcome = Returns (Str ''Answer''), elapsed = 1\<rparr>"

definition w_demo :: world where
  "w_demo = \<lparr>import_error = None, getenv = (\<lambda>v. Some ''set''), initialize_db = None,
     close_db = None, respond = (\<lambda>h func arg. demo_response func)\<rparr>"

text \<open>The same world without \<open>DATABASE_URL\<close>, and with a database that refuses to connect.\<close>

definition w_missing_database_url :: world where
  "w_missing_database_url =
     w_demo\<lparr>getenv := (\<lambda>v. if v = ''DATABASE_URL'' then None else Some ''set'')\<rparr>"

definition w_database_down :: world where
  "w_database_down = w_demo\<lparr>initialize_db := Some (OtherException ''connection refused'')\<rparr>"

text \<open>The same world where the third call is interrupted from the keyboard.\<close>

definition w_interrupted :: world where
  "w_interrupted =
     w_demo\<lparr>respond := (\<lambda>h func arg.
        if func = search_with_reranking then \<lparr>outcome = Raises KeyboardInterrupt, elapsed = 1\<rparr>
        else demo_response func)\<rparr>"

section \<open>The configuration store (utils/config_manager.py)\<close>

subsection \<open>Python values that JSON can hold\<close>

text \<open>
  The values that \<open>json.load\<close> returns and \<open>json.dump\<close> accepts, without floats. A \<open>dict\<close>
  is the list of its items in insertion order; its keys are strings, as JSON's are.
  Strings are lists of 8-bit characters, read as the code points below 256.
\<close>

datatype pyval =
    PNone
  | PBool bool
  | PInt int
  | PStr string
  | PList "pyval list"
  | PDict "(string \<times> pyval) list"


subsection \<open>The library: \<open>json.dumps(obj, indent=2)\<close>\<close>










subsection \<open>The library: \<open>json.loads\<close>\<close>

text \<open>
  The decoder follows the scanner of the \<open>json\<close> module: whitespace is space, tab, line
  feed and carriage return; a string ends at the first unescaped quote, must not hold a
  raw control character, and knows the escapes \<open>\" \\ \/ \b \f \n \r \t \uXXXX\<close>; a number
  is an optional minus sign and then either a single \<open>0\<close> or a digit from 1 to 9 with any
  more digits; lists and dicts separate their items by commas, without a trailing one;
  a repeated key keeps its first position and its last value; after the value only
  whitespace may follow. \<open>None\<close> stands for the \<open>JSONDecodeError\<close> that Python raises.

  Two kinds of text are outside the model, because their values have no counterpart in
  \<open>pyval\<close>: a number with a fraction or an exponent (and \<open>NaN\<close>, \<open>Infinity\<close>), which Python
  reads as a float, and a \<open>\uXXXX\<close> escape of a code point above 00FF. On these the
  functions below answer \<open>None\<close>. The limits of the interpreter (recursion depth, the
  length of an integer literal) are not modelled either.
\<close>

definition is_ws :: "char \<Rightarrow> bool" where
  "is_ws c = (c = CHR '' '' \<or> c = CHR 0x09 \<or> c = CHR 0x0A \<or> c = CHR 0x0D)"

fun skip_ws :: "string \<Rightarrow> string" where
  "skip_ws [] = []"
| "skip_ws (c # cs) = (if is_ws c then skip_ws cs else c # cs)"

definition hex_val :: "char \<Rightarrow> nat option" where
  "hex_val c =
     (let n = (of_char c :: nat) in
      if 48 \<le> n \<and> n \<le> 57 then Some (n - 48)
      else if 97 \<le> n \<and> n \<le> 102 then Some (n - 87)
      else if 65 \<le> n \<and> n \<le> 70 then Some (n - 55)
      else None)"

definition hex4 :: "char \<Rightarrow> char \<Rightarrow> char \<Rightarrow> char \<Rightarrow> nat option" where
  "hex4 a b c d =
     (case (hex_val a, hex_val b, hex_val c, hex_val d) of
        (Some w, Some x, Some y, Some z) \<Rightarrow> Some (((w * 16 + x) * 16 + y) * 16 + z)
      | _ \<Rightarrow> None)"

definition unescape :: "char \<Rightarrow> char option" where
  "unescape e =
     (if e = CHR 0x22 then Some (CHR 0x22)
      else if e = CHR 0x5C then Some (CHR 0x5C)
      else if e = CHR ''/'' then Some (CHR ''/'')
      else if e = CHR ''b'' then Some (CHR 0x08)
      else if e = CHR ''f'' then Some (CHR 0x0C)
      else if e = CHR ''n'' then Some (CHR 0x0A)
      else if e = CHR ''r'' then Some (CHR 0x0D)
      else if e = CHR ''t'' then Some (CHR 0x09)
      else None)"

definition cons_char :: "char \<Rightarrow> (string \<times> string) option \<Rightarrow> (string \<times> string) option" where
  "cons_char c r = (case r of None \<Rightarrow> None | Some (s, rest) \<Rightarrow> Some (c # s, rest))"

fun scan_string :: "string \<Rightarrow> (string \<times> string) option" where
  "scan_string [] = None"
| "scan_string (c # cs) =
     (if c = CHR 0x22 then Some ([], cs)
      else if c = CHR 0x5C then
        (case cs of
           [] \<Rightarrow> None
         | e # cs1 \<Rightarrow>
             if e = CHR ''u'' then
               (case cs1 of
                  h1 # h2 # h3 # h4 # cs2 \<Rightarrow>
                    (case hex4 h1 h2 h3 h4 of
                       None \<Rightarrow> None
                     | Some n \<Rightarrow> if n < 256 then cons_char (char_of n) (scan_string cs2) else None)
                | _ \<Rightarrow> None)
             else
               (case unescape e of
                  None \<Rightarrow> None
                | Some d \<Rightarrow> cons_char d (scan_string cs1)))
      else if (of_char c :: nat) < 32 then None
      else cons_char c (scan_string cs))"

definition is_digit :: "char \<Rightarrow> bool" where
  "is_digit c = (48 \<le> (of_char c :: nat) \<and> (of_char c :: nat) \<le> 57)"

fun nat_of_digits :: "nat \<Rightarrow> string \<Rightarrow> nat" where
  "nat_of_digits acc [] = acc"
| "nat_of_digits acc (d # ds) = nat_of_digits (10 * acc + (of_char d - 48)) ds"

definition scan_digits :: "string \<Rightarrow> (nat \<times> string) option" where
  "scan_digits cs =
     (case cs of
        [] \<Rightarrow> None
      | d # r \<Rightarrow>
          if d = CHR ''0'' then Some (0, r)
          else if is_digit d then Some (nat_of_digits 0 (takeWhile is_digit cs), dropWhile is_digit cs)
          else None)"

definition parse_number :: "string \<Rightarrow> (pyval \<times> string) option" where
  "parse_number cs =
     (case cs of
        [] \<Rightarrow> None
      | c # r \<Rightarrow>
          if c = CHR ''-'' then
            (case scan_digits r of None \<Rightarrow> None | Some (n, rest) \<Rightarrow> Some (PInt (- int n), rest))
          else
            (case scan_digits cs of None \<Rightarrow> None | Some (n, rest) \<Rightarrow> Some (PInt (int n), rest)))"

fun dict_set :: "(string \<times> pyval) list \<Rightarrow> string \<Rightarrow> pyval \<Rightarrow> (string \<times> pyval) list" where
  "dict_set [] k v = [(k, v)]"
| "dict_set ((k', v') # kvs) k v = (if k' = k then (k', v) # kvs else (k', v') # dict_set kvs k v)"

fun dict_of :: "(string \<times> pyval) list \<Rightarrow> (string \<times> pyval) list \<Rightarrow> (string \<times> pyval) list" where
  "dict_of d [] = d"
| "dict_of d ((k, v) # kvs) = dict_of (dict_set d k v) kvs"

text \<open>
  The scanner is recursive in the nesting of the text. The first argument bounds the
  number of nested calls; \<open>json_loads\<close> starts it above twice the length of the text,
  which is always enough (\<open>json_loads_fuel\<close> below).
\<close>

fun parse_value :: "nat \<Rightarrow> string \<Rightarrow> (pyval \<times> string) option"
  and parse_items :: "nat \<Rightarrow> string \<Rightarrow> (pyval list \<times> string) option"
  and parse_pairs :: "nat \<Rightarrow> string \<Rightarrow> ((string \<times> pyval) list \<times> string) option" where
  "parse_value 0 cs = None"
| "parse_value (Suc n) [] = None"
| "parse_value (Suc n) (c # r) =
     (if c = CHR 0x22 then
        (case scan_string r of None \<Rightarrow> None | Some (s, rest) \<Rightarrow> Some (PStr s, rest))
      else if c = CHR ''{'' then
        (case skip_ws r of
           [] \<Rightarrow> None
         | c1 # r1 \<Rightarrow>
             if c1 = CHR ''}'' then Some (PDict [], r1)
             else (case parse_pairs n (c1 # r1) of
                     None \<Rightarrow> None
                   | Some (kvs, rest) \<Rightarrow> Some (PDict (dict_of [] kvs), rest)))
      else if c = CHR ''['' then
        (case skip_ws r of
           [] \<Rightarrow> None
         | c1 # r1 \<Rightarrow>
             if c1 = CHR '']'' then Some (PList [], r1)
             else (case parse_items n (c1 # r1) of
                     None \<Rightarrow> None
                   | Some (vs, rest) \<Rightarrow> Some (PList vs, rest)))
      else if startswith (c # r) ''null'' then Some (PNone, drop 4 (c # r))
      else if startswith (c # r) ''true'' then Some (PBool True, drop 4 (c # r))
      else if startswith (c # r) ''false'' then Some (PBool False, drop 5 (c # r))
      else parse_number (c # r))"
| "parse_items 0 cs = None"
| "parse_items (Suc n) cs =
     (case parse_value n cs of
        None \<Rightarrow> None
      | Some (v, rest) \<Rightarrow>
          (case skip_ws rest of
             [] \<Rightarrow> None
           | c1 # r1 \<Rightarrow>
               if c1 = CHR '']'' then Some ([v], r1)
               else if c1 = CHR '','' then
                 (case parse_items n (skip_ws r1) of
                    None \<Rightarrow> None
                  | Some (vs, rest1) \<Rightarrow> Some (v # vs, rest1))
               else None))"
| "parse_pairs 0 cs = None"
| "parse_pairs (Suc n) [] = None"
| "parse_pairs (Suc n) (c # r) =
     (if c \<noteq> CHR 0x22 then None
      else
        (case scan_string r of
           None \<Rightarrow> None
         | Some (k, rest) \<Rightarrow>
             (case skip_ws rest of
                [] \<Rightarrow> None
              | c1 # r1 \<Rightarrow>
                  if c1 \<noteq> CHR '':'' then None
                  else
                    (case parse_value n (skip_ws r1) of
                       None \<Rightarrow> None
                     | Some (v, rest1) \<Rightarrow>
                         (case skip_ws rest1 of
                            [] \<Rightarrow> None
                          | c2 # r2 \<Rightarrow>
                              if c2 = CHR ''}'' then Some ([(k, v)], r2)
                              else if c2 = CHR '','' then
                                (case parse_pairs n (skip_ws r2) of
                                   None \<Rightarrow> None
                                 | Some (kvs, rest2) \<Rightarrow> Some ((k, v) # kvs, rest2))
                              else None)))))"

definition json_loads :: "string \<Rightarrow> pyval option" where
  "json_loads s =
     (case parse_value (Suc (2 * length s)) (skip_ws s) of
        None \<Rightarrow> None
      | Some (v, rest) \<Rightarrow> if skip_ws rest = [] then Some v else None)"

subsection \<open>The configuration file and the two operations\<close>








subsection \<open>Values that survive the file\<close>





subsection \<open>Example files and configurations\<close>






section \<open>Properties of the harness\<close>

subsection \<open>The string tests mean what Python's mean\<close>

lemma startswith_iff: "startswith s p \<longleftrightarrow> (\<exists>t. s = p @ t)"
  by (induction s p rule: startswith.induct) auto

lemma contains_iff: "contains s sub \<longleftrightarrow> (\<exists>a b. s = a @ sub @ b)"
proof (induction s)
  case Nil
  then show ?case by (auto simp: startswith_iff)
next
  case (Cons c cs)
  show ?case
  proof
    assume "contains (c # cs) sub"
    then consider "startswith (c # cs) sub" | "contains cs sub" by auto
    then show "\<exists>a b. c # cs = a @ sub @ b"
    proof cases
      case 1
      then obtain t where "c # cs = sub @ t" by (auto simp: startswith_iff)
      then have "c # cs = [] @ sub @ t" by simp
      then show ?thesis by blast
    next
      case 2
      then obtain a b where "cs = a @ sub @ b" using Cons.IH by blast
      then have "c # cs = (c # a) @ sub @ b" by simp
      then show ?thesis by blast
    qed
  next
    assume "\<exists>a b. c # cs = a @ sub @ b"
    then obtain a b where ab: "c # cs = a @ sub @ b" by blast
    show "contains (c # cs) sub"
    proof (cases a)
      case Nil
      with ab have "startswith (c # cs) sub" by (simp add: startswith_iff)
      then show ?thesis by simp
    next
      case (Cons x a')
      with ab have "cs = a' @ sub @ b" by simp
      then have "contains cs sub" using Cons.IH by blast
      then show ?thesis by simp
    qed
  qed
qed

subsection \<open>A run whose calls all return or raise an Exception\<close>

lemma run_test_caught:
  assumes "caught (outcome (respond w h func arg))"
  shows "\<exists>r. run_test w h nm func arg = Inr r \<and> name r = nm"
  using assms
  by (cases "outcome (respond w h func arg)")
     (auto simp: run_test_def Let_def split: prod.splits)

lemma run_tests_caught:
  assumes "list_all caught (call_outcomes w (trace s) ts)"
  shows "fst (run_tests w ts s) = None
       \<and> map name (results (snd (run_tests w ts s))) = map name (results s) @ map fst ts
       \<and> trace (snd (run_tests w ts s)) = trace s @ map (\<lambda>(nm, func, arg). Invoke func arg) ts
       \<and> db_initialized (snd (run_tests w ts s)) = db_initialized s"
  using assms
proof (induction ts arbitrary: s)
  case Nil
  then show ?case by simp
next
  case (Cons t ts)
  obtain nm func arg where t: "t = (nm, func, arg)" by (cases t)
  from Cons.prems have c: "caught (outcome (respond w (trace s) func arg))"
    and rest: "list_all caught (call_outcomes w (trace s @ [Invoke func arg]) ts)"
    by (simp_all add: t)
  obtain r where r: "run_test w (trace s) nm func arg = Inr r" "name r = nm"
    using run_test_caught[OF c] by blast
  let ?s = "s\<lparr>trace := trace s @ [Invoke func arg], results := results s @ [r]\<rparr>"
  have "list_all caught (call_outcomes w (trace ?s) ts)" using rest by simp
  from Cons.IH[OF this] show ?case using r by (simp add: t Let_def)
qed

lemma setup_tester_ok:
  assumes "fst (setup_tester w s) = None"
  shows "snd (setup_tester w s) = s\<lparr>trace := trace s @ [Initialize_db], db_initialized := True\<rparr>"
  using assms by (auto simp: setup_tester_def Let_def split: if_splits option.splits)

lemma print_report_keeps:
  "results (snd (print_report s)) = results s
   \<and> trace (snd (print_report s)) = trace s @ [Print_report (length (results s)) (fst (tally (results s) (0, 0))) (snd (tally (results s) (0, 0)))]"
  by (simp add: print_report_def Let_def split: prod.splits)

lemma run_all_completes:
  assumes ok: "fst (setup_tester w new_tester) = None"
    and c: "list_all caught (call_outcomes w [Initialize_db] (registered_tests q))"
  shows "map name (results (snd (run_all w q new_tester))) = map fst (registered_tests q)
       \<and> (\<exists>evs. trace (snd (run_all w q new_tester)) =
             Initialize_db # map (\<lambda>(nm, func, arg). Invoke func arg) (registered_tests q)
               @ Close_db # evs
             \<and> Close_db \<notin> set evs)"
proof -
  obtain s1 where s1: "setup_tester w new_tester = (None, s1)"
    using ok by (cases "setup_tester w new_tester") auto
  have s1_eq: "s1 = new_tester\<lparr>trace := [Initialize_db], db_initialized := True\<rparr>"
    using setup_tester_ok[OF ok] s1 by (simp add: new_tester_def)
  have "list_all caught (call_outcomes w (trace s1) (registered_tests q))"
    using c s1_eq by simp
  note f = run_tests_caught[OF this]
  obtain s2 where s2: "run_tests w (registered_tests q) s1 = (None, s2)"
    using f by (cases "run_tests w (registered_tests q) s1") auto
  have n2: "map name (results s2) = map fst (registered_tests q)"
    using f s2 s1_eq by (simp add: new_tester_def)
  have t2: "trace s2 = Initialize_db # map (\<lambda>(nm, func, arg). Invoke func arg) (registered_tests q)"
    using f s2 s1_eq by simp
  have d2: "db_initialized s2" using f s2 s1_eq by simp
  have ra: "run_all w q new_tester =
       (case close_db w of Some e \<Rightarrow> (Some e, s2\<lparr>trace := trace s2 @ [Close_db]\<rparr>)
        | None \<Rightarrow> print_report (s2\<lparr>trace := trace s2 @ [Close_db]\<rparr>))"
    using d2 by (simp add: run_all_def s1 s2 teardown_def split: option.splits)
  show ?thesis
    using n2 t2 by (cases "close_db w") (simp_all add: ra print_report_keeps)
qed

lemmas harness_defs = run_all_def setup_tester_def teardown_def print_report_def run_test_def
  classify_def registered_tests_def new_tester_def main_def script_def Let_def

subsection \<open>Exit status\<close>

text \<open>
  C1. The claim: a fatal setup or critical error (a missing credential, a database that
  does not connect) ends the process with exit status 1, and the status is 0 only when
  all tests passed. The code does otherwise: the \<open>except Exception\<close> clause of the
  \<open>__main__\<close> block prints the failure and lets the script run to its end, so the exit
  status is 0, with no test run at all.
\<close>

theorem main_exits_zero_on_fatal_error:
  "main w_missing_database_url None = 0 \<and> main w_database_down None = 0
   \<and> results (snd (run_all w_missing_database_url ''What are the strategic goals?'' new_tester)) = []"
  by (simp add: harness_defs w_missing_database_url_def w_database_down_def w_demo_def)

text \<open>
  The other failure paths of the script do end with status 1: the failed import at the
  top, and a run that completes with a failed test.
\<close>

lemma script_exits_one_on_import_error: "import_error w = Some m \<Longrightarrow> script w query_arg = 1"
  by (simp add: script_def)

lemma main_exits_one_on_failed_test: "main w_demo None = 1"
  by (simp add: harness_defs w_demo_def)

subsection \<open>Teardown\<close>

text \<open>
  C2, as stated, fails: \<open>run_all\<close> calls \<open>teardown\<close> after the tenth test and has no
  \<open>finally\<close>. In the world where the third call raises \<open>KeyboardInterrupt\<close>, which
  \<open>except Exception\<close> does not catch, the database was acquired and is never closed.
\<close>

theorem teardown_skipped_on_interrupt:
  "fst (setup_tester w_interrupted new_tester) = None
   \<and> db_initialized (snd (run_all w_interrupted ''strategic overview'' new_tester))
   \<and> fst (run_all w_interrupted ''strategic overview'' new_tester) = Some KeyboardInterrupt
   \<and> Close_db \<notin> set (trace (snd (run_all w_interrupted ''strategic overview'' new_tester)))"
  by (simp add: harness_defs w_interrupted_def w_demo_def)

text \<open>
  C2, amended: when setup acquired the database and each of the ten calls returns or
  raises an \<open>Exception\<close>, \<open>close_db\<close> is called exactly once, however many tests failed
  and whatever \<open>close_db\<close> and the report do.
\<close>

theorem teardown_runs_when_execute_completes:
  assumes "fst (setup_tester w new_tester) = None"
    and "list_all caught (call_outcomes w [Initialize_db] (registered_tests q))"
  shows "count_list (trace (snd (run_all w q new_tester))) Close_db = 1"
proof -
  obtain evs where "trace (snd (run_all w q new_tester)) =
      Initialize_db # map (\<lambda>(nm, func, arg). Invoke func arg) (registered_tests q) @ Close_db # evs"
    and "Close_db \<notin> set evs"
    using run_all_completes[OF assms] by blast
  then show ?thesis
    by (simp add: registered_tests_def count_list_0_iff)
qed

theorem teardown_runs_when_execute_completes_witness:
  "fst (setup_tester w_demo new_tester) = None
   \<and> list_all caught (call_outcomes w_demo [Initialize_db] (registered_tests ''strategic overview''))
   \<and> count_list (trace (snd (run_all w_demo ''strategic overview'' new_tester))) Close_db = 1"
proof -
  have h1: "fst (setup_tester w_demo new_tester) = None"
    by (simp add: harness_defs w_demo_def)
  have h2: "list_all caught (call_outcomes w_demo [Initialize_db] (registered_tests ''strategic overview''))"
    by (simp add: registered_tests_def w_demo_def)
  show ?thesis using h1 h2 teardown_runs_when_execute_completes[OF h1 h2] by simp
qed

subsection \<open>Classification of one call\<close>

text \<open>
  C3. A call that returns gives a \<open>TestResult\<close>. A value that is not a string is a FAIL
  whose text is the message \<open>Unexpected return type: \<close> followed by the type; a string
  that starts with \<open>Error\<close> or \<open>Search error\<close>, or contains \<open>encountered an error\<close>, is a
  FAIL; any other string is a PASS whose output is its first 200 characters followed by
  three dots, at most 203 characters.
\<close>

theorem run_test_classifies_returned_value:
  assumes "outcome (respond w h func arg) = Returns v"
  shows "\<exists>r. run_test w h nm func arg = Inr r \<and>
     (case v of
        NonStr t \<Rightarrow>
          status r = ''FAIL''
          \<and> output r = take 200 (''Unexpected return type: '' @ t) @ ''...''
      | Str s \<Rightarrow>
          (if startswith s ''Error'' \<or> startswith s ''Search error''
              \<or> contains s ''encountered an error''
           then status r = ''FAIL''
           else status r = ''PASS'' \<and> output r = take 200 s @ ''...''
                \<and> length (output r) \<le> 203))"
  using assms by (cases v) (simp_all add: run_test_def classify_def Let_def)

theorem run_test_classifies_returned_value_witness:
  "outcome (respond w_demo [] search_knowledge_base ''q'') = Returns (Str ''Found 3 relevant chunks'')
   \<and> (\<exists>r. run_test w_demo [] ''Baseline'' search_knowledge_base ''q'' = Inr r
        \<and> status r = ''PASS'' \<and> output r = ''Found 3 relevant chunks...'')"
proof -
  have h: "outcome (respond w_demo [] search_knowledge_base ''q'') = Returns (Str ''Found 3 relevant chunks'')"
    by (simp add: w_demo_def)
  show ?thesis
    using h run_test_classifies_returned_value[OF h, of "''Baseline''"] by auto
qed

subsection \<open>Isolation\<close>

text \<open>
  C4. When setup succeeds and each of the ten calls returns or raises an \<open>Exception\<close>,
  the run leaves exactly ten results, named after the ten registered tests in the order
  of the source.
\<close>

theorem run_all_ten_results_in_order:
  assumes "fst (setup_tester w new_tester) = None"
    and "list_all caught (call_outcomes w [Initialize_db] (registered_tests q))"
  shows "map name (results (snd (run_all w q new_tester))) =
      [''Baseline: search_knowledge_base'',
       ''Strategy: search_with_multi_query'',
       ''Strategy: search_with_reranking'',
       ''Strategy: search_with_self_reflection'',
       ''Strategy: search_with_hybrid_retrieval'',
       ''Edge Case: retrieve_full_document (missing)'',
       ''Strategy: answer_with_fact_verification'',
       ''Strategy: answer_with_multi_hop'',
       ''Strategy: answer_with_uncertainty'',
       ''Input Validation: Empty Query'']
     \<and> length (results (snd (run_all w q new_tester))) = 10"
proof -
  have m: "map name (results (snd (run_all w q new_tester))) = map fst (registered_tests q)"
    using run_all_completes[OF assms] by blast
  have "length (results (snd (run_all w q new_tester))) = length (map fst (registered_tests q))"
    using m by (metis length_map)
  then have "length (results (snd (run_all w q new_tester))) = 10"
    by (simp add: registered_tests_def)
  then show ?thesis using m by (simp add: registered_tests_def)
qed

theorem run_all_ten_results_in_order_witness:
  "fst (setup_tester w_demo new_tester) = None
   \<and> list_all caught (call_outcomes w_demo [Initialize_db] (registered_tests ''goals''))
   \<and> length (results (snd (run_all w_demo ''goals'' new_tester))) = 10
   \<and> map status (results (snd (run_all w_demo ''goals'' new_tester))) =
       [''PASS'', ''FAIL'', ''FAIL'', ''FAIL'', ''FAIL'', ''PASS'', ''FAIL'', ''PASS'', ''PASS'', ''PASS'']"
proof -
  have h1: "fst (setup_tester w_demo new_tester) = None"
    by (simp add: harness_defs w_demo_def)
  have h2: "list_all caught (call_outcomes w_demo [Initialize_db] (registered_tests ''goals''))"
    by (simp add: registered_tests_def w_demo_def)
  have st: "map status (results (snd (run_all w_demo ''goals'' new_tester))) =
       [''PASS'', ''FAIL'', ''FAIL'', ''FAIL'', ''FAIL'', ''PASS'', ''FAIL'', ''PASS'', ''PASS'', ''PASS'']"
    by (simp add: harness_defs w_demo_def)
  show ?thesis using h1 h2 st run_all_ten_results_in_order[OF h1 h2] by simp
qed

subsection \<open>A call that raises\<close>

text \<open>
  C5. A call that raises an \<open>Exception\<close> is recorded as FAIL, with the exception's text
  in \<open>error\<close> and an empty \<open>output\<close>.
\<close>

theorem run_test_records_exception:
  assumes "outcome (respond w h func arg) = Raises e" and "is_Exception e"
  shows "run_test w h nm func arg =
     Inr \<lparr>name = nm, status = ''FAIL'', duration_ms = elapsed (respond w h func arg) * 1000,
          output = [], error = str_exc e\<rparr>"
  using assms by (simp add: run_test_def Let_def)

theorem run_test_records_exception_witness:
  "outcome (respond w_demo [] search_with_reranking ''q'') = Raises (OtherException ''connection reset'')
   \<and> is_Exception (OtherException ''connection reset'')
   \<and> run_test w_demo [] ''Strategy: search_with_reranking'' search_with_reranking ''q'' =
       Inr \<lparr>name = ''Strategy: search_with_reranking'', status = ''FAIL'', duration_ms = 125,
            output = [], error = ''connection reset''\<rparr>"
proof -
  have h1: "outcome (respond w_demo [] search_with_reranking ''q'') = Raises (OtherException ''connection reset'')"
    by (simp add: w_demo_def)
  have h2: "is_Exception (OtherException ''connection reset'')" by simp
  show ?thesis
    using h1 h2 run_test_records_exception[OF h1 h2, of "''Strategy: search_with_reranking''"]
    by (simp add: w_demo_def)
qed

subsection \<open>Missing credentials\<close>

text \<open>
  C6. When \<open>DATABASE_URL\<close> or \<open>OPENAI_API_KEY\<close> is missing (unset or empty), \<open>run_all\<close>
  raises a \<open>ValueError\<close> out of setup: the tester is left as it was created, with no
  result, and nothing was called, neither the database nor a strategy.
\<close>

theorem run_all_missing_credential:
  assumes "\<not> truthy (getenv w ''DATABASE_URL'') \<or> \<not> truthy (getenv w ''OPENAI_API_KEY'')"
  shows "\<exists>m. run_all w q new_tester =
           (Some (ValueError m), \<lparr>results = [], db_initialized = False, trace = []\<rparr>)"
  using assms by (auto simp: run_all_def setup_tester_def new_tester_def)

theorem run_all_missing_credential_witness:
  "getenv w_missing_database_url ''DATABASE_URL'' = None
   \<and> run_all w_missing_database_url ''goals'' new_tester =
       (Some (ValueError ''DATABASE_URL is missing in .env''),
        \<lparr>results = [], db_initialized = False, trace = []\<rparr>)"
proof -
  have g: "getenv w_missing_database_url ''DATABASE_URL'' = None"
    by (simp add: w_missing_database_url_def w_demo_def)
  then have h: "\<not> truthy (getenv w_missing_database_url ''DATABASE_URL'')
      \<or> \<not> truthy (getenv w_missing_database_url ''OPENAI_API_KEY'')"
    by simp
  have "run_all w_missing_database_url ''goals'' new_tester =
       (Some (ValueError ''DATABASE_URL is missing in .env''),
        \<lparr>results = [], db_initialized = False, trace = []\<rparr>)"
    using run_all_missing_credential[OF h, of "''goals''"]
    by (simp add: harness_defs w_missing_database_url_def w_demo_def)
  then show ?thesis using g by simp
qed

subsection \<open>Error-shaped text\<close>

text \<open>
  C10. A FAIL that comes from error-shaped text keeps the text, cut to 200 characters
  and followed by three dots, in \<open>output\<close> and leaves \<open>error\<close> empty; the exception path
  does the opposite.
\<close>

theorem run_test_error_shaped_string:
  assumes "outcome (respond w h func arg) = Returns (Str s)"
    and "startswith s ''Error'' \<or> startswith s ''Search error''
         \<or> contains s ''encountered an error''"
  shows "run_test w h nm func arg =
     Inr \<lparr>name = nm, status = ''FAIL'', duration_ms = elapsed (respond w h func arg) * 1000,
          output = take 200 s @ ''...'', error = []\<rparr>"
  using assms by (simp add: run_test_def classify_def Let_def)

theorem run_test_error_shaped_string_witness:
  "outcome (respond w_demo [] answer_with_fact_verification ''q'') =
      Returns (Str ''The agent encountered an error while verifying'')
   \<and> contains ''The agent encountered an error while verifying'' ''encountered an error''
   \<and> run_test w_demo [] ''Strategy: answer_with_fact_verification'' answer_with_fact_verification ''q'' =
       Inr \<lparr>name = ''Strategy: answer_with_fact_verification'', status = ''FAIL'', duration_ms = 3000,
            output = ''The agent encountered an error while verifying...'', error = []\<rparr>"
proof -
  have h1: "outcome (respond w_demo [] answer_with_fact_verification ''q'') =
      Returns (Str ''The agent encountered an error while verifying'')"
    by (simp add: w_demo_def)
  have h2: "contains ''The agent encountered an error while verifying'' ''encountered an error''"
    by simp
  then have h2': "startswith ''The agent encountered an error while verifying'' ''Error''
      \<or> startswith ''The agent encountered an error while verifying'' ''Search error''
      \<or> contains ''The agent encountered an error while verifying'' ''encountered an error''"
    by blast
  show ?thesis
    using h1 h2 run_test_error_shaped_string[OF h1 h2', of "''Strategy: answer_with_fact_verification''"]
    by (simp add: w_demo_def)
qed

section \<open>Properties of the configuration store\<close>

subsection \<open>Strings: the decoder undoes the escapes\<close>







subsection \<open>Integers: the decoder reads back the digits\<close>








subsection \<open>Dicts without repeated keys\<close>



subsection \<open>The first character of an encoded value\<close>







subsection \<open>Decoding an encoded value\<close>




subsection \<open>The bound on nested calls does not matter\<close>

text \<open>
  What the scanner leaves is never longer than what it was given, so a successful scan
  is found again with any bound above twice the length of the text. \<open>json_loads\<close> therefore
  gives the same answer with any larger bound: its \<open>None\<close> is always a text that is not
  JSON, never a bound that was too small.
\<close>

lemma length_skip_ws: "length (skip_ws cs) \<le> length cs"
  by (induction cs) auto

lemma skip_ws_Cons_length: "skip_ws cs = c # r \<Longrightarrow> length r < length cs"
  using length_skip_ws[of cs] by simp

lemma cons_char_Some:
  "cons_char c x = Some (s, rest) \<Longrightarrow> \<exists>s'. x = Some (s', rest)"
  by (cases x) (auto simp: cons_char_def)

lemma scan_string_length:
  "scan_string cs = Some (s, rest) \<Longrightarrow> length rest < length cs"
proof (induction cs arbitrary: s rule: scan_string.induct)
  case 1
  then show ?case by simp
next
  case (2 c cs)
  show ?case
  proof (cases "c = CHR 0x22")
    case True
    with "2.prems" show ?thesis by simp
  next
    case nq: False
    show ?thesis
    proof (cases "c = CHR 0x5C")
      case False
      with nq "2.prems" have lo: "\<not> (of_char c :: nat) < 32" and "cons_char c (scan_string cs) = Some (s, rest)"
        by (auto split: if_splits)
      then obtain s' where "scan_string cs = Some (s', rest)" using cons_char_Some by blast
      then have "length rest < length cs"
        using "2.IH"(3) nq False lo by blast
      then show ?thesis by simp
    next
      case True
      show ?thesis
      proof (cases cs)
        case Nil
        with True nq "2.prems" show ?thesis by simp
      next
        case (Cons e cs1)
        show ?thesis
        proof (cases "e = CHR ''u''")
          case False
          with True nq Cons "2.prems" obtain d where d: "unescape e = Some d"
            and "cons_char d (scan_string cs1) = Some (s, rest)"
            by (auto split: option.splits)
          then obtain s' where "scan_string cs1 = Some (s', rest)" using cons_char_Some by blast
          then have "length rest < length cs1"
            using "2.IH"(2) nq True Cons False d by blast
          then show ?thesis using Cons by simp
        next
          case u: True
          with True nq Cons "2.prems" obtain h1 h2 h3 h4 cs2 n where cs1: "cs1 = h1 # h2 # h3 # h4 # cs2"
            and h: "hex4 h1 h2 h3 h4 = Some n" and n: "n < 256"
            and "cons_char (char_of n) (scan_string cs2) = Some (s, rest)"
            by (auto split: list.splits option.splits if_splits)
          then obtain s' where s': "scan_string cs2 = Some (s', rest)" using cons_char_Some by blast
          have "length rest < length cs2"
            using "2.IH"(1) nq True Cons u cs1 h n s' by blast
          then show ?thesis using Cons cs1 by simp
        qed
      qed
    qed
  qed
qed


lemma scan_digits_length: "scan_digits cs = Some (k, rest) \<Longrightarrow> length rest \<le> length cs"
proof (cases cs)
  case Nil
  assume "scan_digits cs = Some (k, rest)"
  with Nil show ?thesis by (simp add: scan_digits_def)
next
  case (Cons d r)
  assume a: "scan_digits cs = Some (k, rest)"
  have "length (dropWhile is_digit (d # r)) \<le> length (d # r)" by (rule length_dropWhile_le)
  with a Cons show ?thesis by (auto simp: scan_digits_def split: if_splits)
qed

lemma parse_number_length: "parse_number cs = Some (v, rest) \<Longrightarrow> length rest \<le> length cs"
proof (cases cs)
  case Nil
  assume "parse_number cs = Some (v, rest)"
  with Nil show ?thesis by (simp add: parse_number_def)
next
  case (Cons c r)
  assume a: "parse_number cs = Some (v, rest)"
  show ?thesis
  proof (cases "c = CHR ''-''")
    case True
    with a Cons obtain k where "scan_digits r = Some (k, rest)"
      by (auto simp: parse_number_def split: option.splits)
    from scan_digits_length[OF this] show ?thesis using Cons by simp
  next
    case False
    with a Cons obtain k where "scan_digits (c # r) = Some (k, rest)"
      by (auto simp: parse_number_def split: option.splits)
    from scan_digits_length[OF this] show ?thesis using Cons by simp
  qed
qed

lemma parse_value_object:
  "parse_value (Suc k) (CHR ''{'' # r) =
     (case skip_ws r of
        [] \<Rightarrow> None
      | c1 # r1 \<Rightarrow>
          if c1 = CHR ''}'' then Some (PDict [], r1)
          else (case parse_pairs k (c1 # r1) of
                  None \<Rightarrow> None
                | Some (kvs, rest) \<Rightarrow> Some (PDict (dict_of [] kvs), rest)))"
  by simp

lemma parse_value_array:
  "parse_value (Suc k) (CHR ''['' # r) =
     (case skip_ws r of
        [] \<Rightarrow> None
      | c1 # r1 \<Rightarrow>
          if c1 = CHR '']'' then Some (PList [], r1)
          else (case parse_items k (c1 # r1) of
                  None \<Rightarrow> None
                | Some (vs, rest) \<Rightarrow> Some (PList vs, rest)))"
  by simp

lemma parse_value_leaf:
  "c \<noteq> CHR ''{'' \<Longrightarrow> c \<noteq> CHR ''['' \<Longrightarrow>
   parse_value (Suc k) (c # r) =
     (if c = CHR 0x22 then
        (case scan_string r of None \<Rightarrow> None | Some (s, rest) \<Rightarrow> Some (PStr s, rest))
      else if startswith (c # r) ''null'' then Some (PNone, drop 4 (c # r))
      else if startswith (c # r) ''true'' then Some (PBool True, drop 4 (c # r))
      else if startswith (c # r) ''false'' then Some (PBool False, drop 5 (c # r))
      else parse_number (c # r))"
  by simp

lemma parse_value_leaf_length:
  assumes "c \<noteq> CHR ''{''" "c \<noteq> CHR ''[''" "parse_value (Suc k) (c # r) = Some (v, rest)"
  shows "length rest \<le> length (c # r)"
proof -
  note p = assms(3)[unfolded parse_value_leaf[OF assms(1,2)]]
  show ?thesis
  proof (cases "c = CHR 0x22")
    case True
    with p obtain s where "scan_string r = Some (s, rest)" by (auto split: option.splits)
    from scan_string_length[OF this] show ?thesis by simp
  next
    case False
    consider "rest = drop 4 (c # r)" | "rest = drop 5 (c # r)" | "parse_number (c # r) = Some (v, rest)"
      using p False by (auto split: if_splits)
    then show ?thesis
    proof cases
      case 3
      from parse_number_length[OF this] show ?thesis .
    qed simp_all
  qed
qed

lemma parse_items_Some:
  assumes "parse_items (Suc k) cs = Some (vs, rest)"
  obtains v rest0 c1 r1 where "parse_value k cs = Some (v, rest0)" "skip_ws rest0 = c1 # r1"
    and "(c1 = CHR '']'' \<and> vs = [v] \<and> rest = r1)
         \<or> (c1 \<noteq> CHR '']'' \<and> c1 = CHR '','' \<and> (\<exists>vs'. parse_items k (skip_ws r1) = Some (vs', rest) \<and> vs = v # vs'))"
  using assms by (auto split: option.splits list.splits if_splits)

lemma parse_pairs_Some:
  assumes "parse_pairs (Suc k) cs = Some (kvs, rest)"
  obtains r key rest0 r1 v rest1 c2 r2 where "cs = CHR 0x22 # r" "scan_string r = Some (key, rest0)"
    and "skip_ws rest0 = CHR '':'' # r1" "parse_value k (skip_ws r1) = Some (v, rest1)"
    and "skip_ws rest1 = c2 # r2"
    and "(c2 = CHR ''}'' \<and> kvs = [(key, v)] \<and> rest = r2)
         \<or> (c2 \<noteq> CHR ''}'' \<and> c2 = CHR '','' \<and> (\<exists>kvs'. parse_pairs k (skip_ws r2) = Some (kvs', rest) \<and> kvs = (key, v) # kvs'))"
proof (cases cs)
  case Nil
  with assms show ?thesis by simp
next
  case (Cons c r)
  with assms have c: "c = CHR 0x22" by (auto split: if_splits)
  with assms Cons obtain key rest0 where k: "scan_string r = Some (key, rest0)"
    by (auto split: option.splits)
  with assms Cons c obtain c1 r1 where s: "skip_ws rest0 = c1 # r1"
    by (auto split: list.splits)
  with assms Cons c k have c1: "c1 = CHR '':''" by (auto split: if_splits)
  with assms Cons c k s obtain v rest1 where v: "parse_value k (skip_ws r1) = Some (v, rest1)"
    by (auto split: option.splits)
  with assms Cons c k s c1 obtain c2 r2 where s2: "skip_ws rest1 = c2 # r2"
    by (auto split: list.splits)
  have "(c2 = CHR ''}'' \<and> kvs = [(key, v)] \<and> rest = r2)
         \<or> (c2 \<noteq> CHR ''}'' \<and> c2 = CHR '','' \<and> (\<exists>kvs'. parse_pairs k (skip_ws r2) = Some (kvs', rest) \<and> kvs = (key, v) # kvs'))"
    using assms Cons c k s c1 v s2 by (auto split: option.splits if_splits)
  then show ?thesis using that Cons c k s c1 v s2 by blast
qed


lemma parse_length:
  "parse_value m cs = Some (v, rest) \<Longrightarrow> length rest \<le> length cs"
  "parse_items m cs = Some (vs, rest) \<Longrightarrow> length rest \<le> length cs"
  "parse_pairs m cs = Some (kvs, rest) \<Longrightarrow> length rest \<le> length cs"
proof (induction m cs and m cs and m cs arbitrary: v rest and vs rest and kvs rest
    rule: parse_value_parse_items_parse_pairs.induct)
  case (3 n c r)
  show ?case
  proof (cases "c = CHR ''{''")
    case True
    note p = "3.prems"[unfolded True parse_value_object]
    then obtain c1 r1 where s: "skip_ws r = c1 # r1" by (auto split: list.splits)
    have l: "length r1 < length r" using s by (rule skip_ws_Cons_length)
    show ?thesis
    proof (cases "c1 = CHR ''}''")
      case True
      with p s l show ?thesis by simp
    next
      case False
      with p s obtain kvs where "parse_pairs n (c1 # r1) = Some (kvs, rest)"
        by (auto split: option.splits)
      then have "length rest \<le> length (c1 # r1)"
        using "3.IH"(1) True s False by simp
      then show ?thesis using l by simp
    qed
  next
    case nobj: False
    show ?thesis
    proof (cases "c = CHR ''[''")
      case True
      note p = "3.prems"[unfolded True parse_value_array]
      then obtain c1 r1 where s: "skip_ws r = c1 # r1" by (auto split: list.splits)
      have l: "length r1 < length r" using s by (rule skip_ws_Cons_length)
      show ?thesis
      proof (cases "c1 = CHR '']''")
        case True
        with p s l show ?thesis by simp
      next
        case False
        with p s obtain vs where "parse_items n (c1 # r1) = Some (vs, rest)"
          by (auto split: option.splits)
        then have "length rest \<le> length (c1 # r1)"
          using "3.IH"(2) True s False by simp
        then show ?thesis using l by simp
      qed
    next
      case False
      from parse_value_leaf_length[OF nobj False "3.prems"] show ?thesis .
    qed
  qed
next
  case (5 n cs)
  from "5.prems" obtain v rest0 c1 r1 where v: "parse_value n cs = Some (v, rest0)"
    and s: "skip_ws rest0 = c1 # r1"
    and d: "(c1 = CHR '']'' \<and> vs = [v] \<and> rest = r1)
         \<or> (c1 \<noteq> CHR '']'' \<and> c1 = CHR '','' \<and> (\<exists>vs'. parse_items n (skip_ws r1) = Some (vs', rest) \<and> vs = v # vs'))"
    by (rule parse_items_Some)
  have l0: "length rest0 \<le> length cs" using "5.IH"(1) v by blast
  have l1: "length r1 < length rest0" using s by (rule skip_ws_Cons_length)
  from d show ?case
  proof
    assume "c1 = CHR '']'' \<and> vs = [v] \<and> rest = r1"
    then show ?thesis using l0 l1 by simp
  next
    assume a: "c1 \<noteq> CHR '']'' \<and> c1 = CHR '','' \<and> (\<exists>vs'. parse_items n (skip_ws r1) = Some (vs', rest) \<and> vs = v # vs')"
    then obtain vs' where "parse_items n (skip_ws r1) = Some (vs', rest)" by blast
    then have "length rest \<le> length (skip_ws r1)"
      using "5.IH"(2) v s a by blast
    then show ?thesis using l0 l1 length_skip_ws[of r1] by simp
  qed
next
  case (8 n c r)
  from "8.prems" obtain r' key rest0 r1 v rest1 c2 r2 where cs: "c # r = CHR 0x22 # r'"
    and k: "scan_string r' = Some (key, rest0)"
    and s1: "skip_ws rest0 = CHR '':'' # r1" and v: "parse_value n (skip_ws r1) = Some (v, rest1)"
    and s2: "skip_ws rest1 = c2 # r2"
    and d: "(c2 = CHR ''}'' \<and> kvs = [(key, v)] \<and> rest = r2)
         \<or> (c2 \<noteq> CHR ''}'' \<and> c2 = CHR '','' \<and> (\<exists>kvs'. parse_pairs n (skip_ws r2) = Some (kvs', rest) \<and> kvs = (key, v) # kvs'))"
    by (rule parse_pairs_Some)
  from cs have c: "c = CHR 0x22" and r: "r' = r" by simp_all
  have l0: "length rest0 < length r" using scan_string_length[OF k] r by simp
  have l1: "length r1 < length rest0" using s1 by (rule skip_ws_Cons_length)
  have "length rest1 \<le> length (skip_ws r1)"
    using "8.IH"(1) c k r s1 v by simp
  then have l2: "length rest1 \<le> length r1" using length_skip_ws[of r1] by simp
  have l3: "length r2 < length rest1" using s2 by (rule skip_ws_Cons_length)
  from d show ?case
  proof
    assume "c2 = CHR ''}'' \<and> kvs = [(key, v)] \<and> rest = r2"
    then show ?thesis using l0 l1 l2 l3 by simp
  next
    assume a: "c2 \<noteq> CHR ''}'' \<and> c2 = CHR '','' \<and> (\<exists>kvs'. parse_pairs n (skip_ws r2) = Some (kvs', rest) \<and> kvs = (key, v) # kvs')"
    then obtain kvs' where "parse_pairs n (skip_ws r2) = Some (kvs', rest)" by blast
    then have "length rest \<le> length (skip_ws r2)"
      using "8.IH"(2) c k r s1 v s2 a by simp
    then show ?thesis using l0 l1 l2 l3 length_skip_ws[of r2] by simp
  qed
qed simp_all


lemma parse_fuel:
  "parse_value m cs = Some x \<Longrightarrow> 2 * length cs < n \<Longrightarrow> parse_value n cs = Some x"
  "parse_items m cs = Some y \<Longrightarrow> 2 * length cs + 2 \<le> n \<Longrightarrow> parse_items n cs = Some y"
  "parse_pairs m cs = Some z \<Longrightarrow> 2 * length cs + 2 \<le> n \<Longrightarrow> parse_pairs n cs = Some z"
proof (induction m cs and m cs and m cs arbitrary: x n and y n and z n
    rule: parse_value_parse_items_parse_pairs.induct)
  case (3 k c r)
  from "3.prems"(2) obtain n' where n: "n = Suc n'" and n': "2 * length r + 2 \<le> n'"
    by (cases n) auto
  show ?case
  proof (cases "c = CHR ''{''")
    case True
    note p = "3.prems"(1)[unfolded True parse_value_object]
    then obtain c1 r1 where s: "skip_ws r = c1 # r1" by (auto split: list.splits)
    have l: "length r1 < length r" using s by (rule skip_ws_Cons_length)
    show ?thesis
    proof (cases "c1 = CHR ''}''")
      case True
      with p s show ?thesis unfolding n \<open>c = CHR ''{''\<close> parse_value_object by simp
    next
      case False
      with p s obtain kvs rest where pp: "parse_pairs k (c1 # r1) = Some (kvs, rest)"
        and x: "x = (PDict (dict_of [] kvs), rest)"
        by (auto split: option.splits)
      have "2 * length (c1 # r1) + 2 \<le> n'" using l n' by simp
      moreover have "c \<noteq> CHR 0x22" using True by simp
      ultimately have "parse_pairs n' (c1 # r1) = Some (kvs, rest)"
        using "3.IH"(1) True s False pp by blast
      then show ?thesis
        unfolding n \<open>c = CHR ''{''\<close> parse_value_object using s False x by simp
    qed
  next
    case nobj: False
    show ?thesis
    proof (cases "c = CHR ''[''")
      case True
      note p = "3.prems"(1)[unfolded True parse_value_array]
      then obtain c1 r1 where s: "skip_ws r = c1 # r1" by (auto split: list.splits)
      have l: "length r1 < length r" using s by (rule skip_ws_Cons_length)
      show ?thesis
      proof (cases "c1 = CHR '']''")
        case True
        with p s show ?thesis unfolding n \<open>c = CHR ''[''\<close> parse_value_array by simp
      next
        case False
        with p s obtain vs rest where pp: "parse_items k (c1 # r1) = Some (vs, rest)"
          and x: "x = (PList vs, rest)"
          by (auto split: option.splits)
        have "2 * length (c1 # r1) + 2 \<le> n'" using l n' by simp
        moreover have "c \<noteq> CHR 0x22" using True by simp
        ultimately have "parse_items n' (c1 # r1) = Some (vs, rest)"
          using "3.IH"(2) nobj True s False pp by blast
        then show ?thesis
          unfolding n \<open>c = CHR ''[''\<close> parse_value_array using s False x by simp
      qed
    next
      case False
      have "parse_value (Suc n') (c # r) = parse_value (Suc k) (c # r)"
        by (simp only: parse_value_leaf[OF nobj False])
      then show ?thesis using "3.prems"(1) n by simp
    qed
  qed
next
  case (5 k cs)
  obtain vs rest where y: "y = (vs, rest)" by (cases y)
  from "5.prems"(2) obtain n' where n: "n = Suc n'" and n': "2 * length cs < n'"
    by (cases n) auto
  from "5.prems"(1)[unfolded y] obtain v rest0 c1 r1 where v: "parse_value k cs = Some (v, rest0)"
    and s: "skip_ws rest0 = c1 # r1"
    and d: "(c1 = CHR '']'' \<and> vs = [v] \<and> rest = r1)
         \<or> (c1 \<noteq> CHR '']'' \<and> c1 = CHR '','' \<and> (\<exists>vs'. parse_items k (skip_ws r1) = Some (vs', rest) \<and> vs = v # vs'))"
    by (rule parse_items_Some)
  have v': "parse_value n' cs = Some (v, rest0)" using "5.IH"(1) v n' by blast
  have l0: "length rest0 \<le> length cs" using parse_length(1)[OF v] .
  have l1: "length r1 < length rest0" using s by (rule skip_ws_Cons_length)
  from d show ?case
  proof
    assume "c1 = CHR '']'' \<and> vs = [v] \<and> rest = r1"
    then show ?thesis unfolding n y using v' s by simp
  next
    assume a: "c1 \<noteq> CHR '']'' \<and> c1 = CHR '','' \<and> (\<exists>vs'. parse_items k (skip_ws r1) = Some (vs', rest) \<and> vs = v # vs')"
    then obtain vs' where pi: "parse_items k (skip_ws r1) = Some (vs', rest)" and vs: "vs = v # vs'"
      by blast
    have "2 * length (skip_ws r1) + 2 \<le> n'"
      using l0 l1 n' length_skip_ws[of r1] by simp
    then have "parse_items n' (skip_ws r1) = Some (vs', rest)"
      using "5.IH"(2) v s a pi by blast
    then show ?thesis unfolding n y using v' s a vs by simp
  qed
next
  case (8 k c r)
  obtain kvs rest where z: "z = (kvs, rest)" by (cases z)
  from "8.prems"(2) obtain n' where n: "n = Suc n'" and n': "2 * length r + 3 \<le> n'"
    by (cases n) auto
  from "8.prems"(1)[unfolded z] obtain r' key rest0 r1 v rest1 c2 r2 where cs: "c # r = CHR 0x22 # r'"
    and k: "scan_string r' = Some (key, rest0)"
    and s1: "skip_ws rest0 = CHR '':'' # r1" and v: "parse_value k (skip_ws r1) = Some (v, rest1)"
    and s2: "skip_ws rest1 = c2 # r2"
    and d: "(c2 = CHR ''}'' \<and> kvs = [(key, v)] \<and> rest = r2)
         \<or> (c2 \<noteq> CHR ''}'' \<and> c2 = CHR '','' \<and> (\<exists>kvs'. parse_pairs k (skip_ws r2) = Some (kvs', rest) \<and> kvs = (key, v) # kvs'))"
    by (rule parse_pairs_Some)
  from cs have c: "c = CHR 0x22" and r: "r' = r" by simp_all
  have l0: "length rest0 < length r" using scan_string_length[OF k] r by simp
  have l1: "length r1 < length rest0" using s1 by (rule skip_ws_Cons_length)
  have l2: "length rest1 \<le> length r1"
    using parse_length(1)[OF v] length_skip_ws[of r1] by simp
  have l3: "length r2 < length rest1" using s2 by (rule skip_ws_Cons_length)
  have "2 * length (skip_ws r1) < n'" using l0 l1 n' length_skip_ws[of r1] by simp
  then have v': "parse_value n' (skip_ws r1) = Some (v, rest1)"
    using "8.IH"(1) c k r s1 v by blast
  from d show ?case
  proof
    assume "c2 = CHR ''}'' \<and> kvs = [(key, v)] \<and> rest = r2"
    then show ?thesis unfolding n z using c k r s1 v' s2 by simp
  next
    assume a: "c2 \<noteq> CHR ''}'' \<and> c2 = CHR '','' \<and> (\<exists>kvs'. parse_pairs k (skip_ws r2) = Some (kvs', rest) \<and> kvs = (key, v) # kvs')"
    then obtain kvs' where pp: "parse_pairs k (skip_ws r2) = Some (kvs', rest)"
      and kvs: "kvs = (key, v) # kvs'" by blast
    have "2 * length (skip_ws r2) + 2 \<le> n'"
      using l0 l1 l2 l3 n' length_skip_ws[of r2] by simp
    then have "parse_pairs n' (skip_ws r2) = Some (kvs', rest)"
      using "8.IH"(2) c k r s1 v s2 a pp by blast
    then show ?thesis unfolding n z using c k r s1 v' s2 a kvs by simp
  qed
qed simp_all

lemma json_loads_fuel:
  assumes "2 * length s < n"
  shows "json_loads s =
     (case parse_value n (skip_ws s) of
        None \<Rightarrow> None
      | Some (v, rest) \<Rightarrow> if skip_ws rest = [] then Some v else None)"
proof -
  have a: "2 * length (skip_ws s) < n" using assms length_skip_ws[of s] by simp
  have b: "2 * length (skip_ws s) < Suc (2 * length s)" using length_skip_ws[of s] by simp
  have "parse_value n (skip_ws s) = parse_value (Suc (2 * length s)) (skip_ws s)"
  proof (cases "parse_value n (skip_ws s)")
    case None
    show ?thesis
    proof (cases "parse_value (Suc (2 * length s)) (skip_ws s)")
      case (Some x)
      from parse_fuel(1)[OF Some a] None show ?thesis by simp
    qed (simp add: None)
  next
    case (Some x)
    from parse_fuel(1)[OF Some b] Some show ?thesis by simp
  qed
  then show ?thesis by (simp add: json_loads_def)
qed

subsection \<open>The two operations\<close>



subsection \<open>Fallback to the defaults\<close>



subsection \<open>Save, then load\<close>



subsection \<open>No merging of defaults\<close>



end
